theory Spec2Isabelle
  imports Complex_Main "HOL-Library.Log_Nat" "HOL-Library.List_Lexorder" "HOL-Library.Char_ord"
    "HOL-Library.AList"
begin

section \<open>Errors\<close>

text \<open>
  The four \<^verbatim>\<open>raise SystemExit(...)\<close> of \<^verbatim>\<open>main\<close>, in source order:
  the input folder is missing or no directory; no \<^verbatim>\<open>.csv\<close> file was found;
  the total number of data lines is 0; the cutoff was computed as 0.
\<close>

datatype exit_reason = InputFolderInvalid | NoCsvFiles | TotalZero | CutoffZero

datatype error =
    SystemExit exit_reason
  | ZeroDivisionError
  | OverflowError
  | IndexError
  | FileNotFoundError
  | SameFileError

section \<open>Python's true division of integers and \<^verbatim>\<open>math.floor\<close>, \<^verbatim>\<open>math.ceil\<close>\<close>

text \<open>
  \<^verbatim>\<open>(9 * total) / 10\<close> divides two Python integers with \<^verbatim>\<open>/\<close>: the result
  is a binary64 float, the exact quotient rounded to the nearest float, ties to the even
  mantissa, and \<^verbatim>\<open>OverflowError\<close> when the rounded result does not fit.
  A finite float is modelled by its integer mantissa and its exponent:
  \<open>(m, e)\<close> stands for \<open>m * 2 ^ e\<close>, with \<open>\<bar>m\<bar> \<le> 2 ^ 53\<close>.
  The exponent is that of the quotient's leading bit less the 52 fraction bits, and not
  below \<open>- 1074\<close>, the exponent of the subnormal floats; the result overflows from
  \<open>2 ^ 1024\<close> on. \<^verbatim>\<open>math.floor\<close> and \<^verbatim>\<open>math.ceil\<close> return the exact
  integer below and above a float.
\<close>

type_synonym pyfloat = "int \<times> int"

definition round_half_even :: "int \<Rightarrow> int \<Rightarrow> int" where
  "round_half_even a b =
     (let q = a div b; r = a mod b
      in if 2 * r < b then q
         else if b < 2 * r then q + 1
         else if even q then q else q + 1)"

text \<open>\<open>floor_log2_quot x y\<close> is the integer \<open>s\<close> with \<open>2 ^ s \<le> x / y < 2 ^ (s + 1)\<close>,
  for positive \<open>x\<close> and \<open>y\<close>.\<close>

definition floor_log2_quot :: "int \<Rightarrow> int \<Rightarrow> int" where
  "floor_log2_quot x y =
     (let d = bitlen x - bitlen y
      in if y * 2 ^ nat d \<le> x * 2 ^ nat (- d) then d else d - 1)"

definition int_true_divide :: "int \<Rightarrow> int \<Rightarrow> error + pyfloat" where
  "int_true_divide a b =
     (if b = 0 then Inl ZeroDivisionError
      else if a = 0 then Inr (0, 0)
      else
        let sgn = (if (a < 0) = (b < 0) then 1 else - 1);
            x = \<bar>a\<bar>; y = \<bar>b\<bar>;
            e = max (floor_log2_quot x y - 52) (- 1074);
            m = round_half_even (x * 2 ^ nat (- e)) (y * 2 ^ nat e)
        in if 0 \<le> e \<and> 2 ^ 1024 \<le> m * 2 ^ nat e then Inl OverflowError
           else Inr (sgn * m, e))"

definition math_floor :: "pyfloat \<Rightarrow> int" where
  "math_floor x = (case x of (m, e) \<Rightarrow> if 0 \<le> e then m * 2 ^ nat e else m div 2 ^ nat (- e))"

definition math_ceil :: "pyfloat \<Rightarrow> int" where
  "math_ceil x =
     (case x of (m, e) \<Rightarrow> if 0 \<le> e then m * 2 ^ nat e else - ((- m) div 2 ^ nat (- e)))"

section \<open>Data structures\<close>

record CsvInfo =
  path :: string
  data_line_count :: int

section \<open>Helpers\<close>

text \<open>\<^verbatim>\<open>count_data_lines\<close> on the records that \<^verbatim>\<open>csv.reader\<close> yields for the file.\<close>

definition count_data_lines :: "'r list \<Rightarrow> bool \<Rightarrow> int" where
  "count_data_lines rows assume_header =
     (let row_count = int (length rows)
      in if assume_header \<and> 0 < row_count then row_count - 1 else row_count)"

text \<open>\<^verbatim>\<open>compute_cutoff\<close>; the module constant \<^verbatim>\<open>USE_CEIL_FOR_CUTOFF\<close> is the
  first argument.\<close>

definition compute_cutoff :: "bool \<Rightarrow> int \<Rightarrow> error + int" where
  "compute_cutoff use_ceil total_lines =
     (if total_lines \<le> 0 then Inr 0
      else case int_true_divide (9 * total_lines) 10 of
             Inl err \<Rightarrow> Inl err
           | Inr raw \<Rightarrow> Inr (if use_ceil then math_ceil raw else math_floor raw))"

text \<open>The \<^verbatim>\<open>for i, info in enumerate(infos)\<close> loop of \<^verbatim>\<open>find_cutoff_location\<close>:
  \<open>None\<close> when the loop ends without returning.\<close>

fun locate_loop :: "CsvInfo list \<Rightarrow> int \<Rightarrow> int \<Rightarrow> int \<Rightarrow> (int \<times> int) option" where
  "locate_loop [] cutoff i running = None"
| "locate_loop (info # rest) cutoff i running =
     (if cutoff \<le> running + data_line_count info then Some (i, cutoff - running)
      else locate_loop rest cutoff (i + 1) (running + data_line_count info))"

definition find_cutoff_location :: "CsvInfo list \<Rightarrow> int \<Rightarrow> error + (int \<times> int)" where
  "find_cutoff_location infos cutoff =
     (if cutoff \<le> 0 then Inr (- 1, - 1)
      else case locate_loop infos cutoff 0 0 of
             Some loc \<Rightarrow> Inr loc
           | None \<Rightarrow>
               (if infos = [] then Inl IndexError
                else Inr (int (length infos) - 1, data_line_count (last infos))))"

text \<open>The part of \<^verbatim>\<open>split_cutoff_file\<close> between reading and writing: the header,
  the rows before the cutoff and the rows at or after it.\<close>

definition split_rows :: "'r list \<Rightarrow> bool \<Rightarrow> int \<Rightarrow> 'r option \<times> 'r list \<times> 'r list" where
  "split_rows rows assume_header cutoff_line_in_file =
     (let (header, data_rows) =
            (if assume_header \<and> rows \<noteq> [] then (Some (hd rows), tl rows) else (None, rows));
          n = int (length data_rows);
          k = max 1 (min cutoff_line_in_file (n + 1));
          rows_before = take (nat (max 0 (k - 1))) data_rows;
          rows_after = drop (nat (max 0 (k - 1))) data_rows
      in (header, rows_before, rows_after))"

text \<open>The data rows of a file, as \<^verbatim>\<open>split_cutoff_file\<close> separates them from the header.\<close>

definition data_rows_of :: "'r list \<Rightarrow> bool \<Rightarrow> 'r list" where
  "data_rows_of rows assume_header = (if assume_header \<and> rows \<noteq> [] then tl rows else rows)"

section \<open>Paths\<close>

text \<open>
  A file of the input folder is identified by its name. \<^verbatim>\<open>Path.suffix\<close> and
  \<^verbatim>\<open>Path.stem\<close> cut the name at its last dot, unless that dot is the first or the
  last character of the name.
\<close>

definition rfind :: "char \<Rightarrow> string \<Rightarrow> int" where
  "rfind c s =
     (if c \<in> set s then int (length s) - 1 - int (length (takeWhile (\<lambda>x. x \<noteq> c) (rev s)))
      else - 1)"

definition suffix :: "string \<Rightarrow> string" where
  "suffix name =
     (let i = rfind (CHR ''.'') name
      in if 0 < i \<and> i < int (length name) - 1 then drop (nat i) name else [])"

definition stem :: "string \<Rightarrow> string" where
  "stem name =
     (let i = rfind (CHR ''.'') name
      in if 0 < i \<and> i < int (length name) - 1 then take (nat i) name else name)"

text \<open>\<^verbatim>\<open>str.lower\<close> on the ASCII letters; the other bytes stay as they are.\<close>

definition lower_char :: "char \<Rightarrow> char" where
  "lower_char c =
     (case map_of (zip ''ABCDEFGHIJKLMNOPQRSTUVWXYZ'' ''abcdefghijklmnopqrstuvwxyz'') c of
        Some l \<Rightarrow> l
      | None \<Rightarrow> c)"

definition lower :: "string \<Rightarrow> string" where
  "lower s = map lower_char s"

section \<open>The file system\<close>

text \<open>
  The records of a file are what \<^verbatim>\<open>csv.reader\<close> yields and \<^verbatim>\<open>csv.writer\<close>
  takes: a list of rows, each a list of fields. The world holds the name of the input
  folder in its parent directory, the regular files of the input folder by name, and the
  two output folders of that parent directory, \<open>None\<close> while a folder does not exist.
  The output folders are \<^verbatim>\<open>parent_dir / TRAIN_DIR_NAME\<close> and
  \<^verbatim>\<open>parent_dir / VAL_DIR_NAME\<close>: when the input folder itself bears one of the two
  names, that output folder is the input folder, its files are \<open>input_files\<close>, and
  the field of the output folder is not used.
\<close>

type_synonym row = "string list"
type_synonym csv = "row list"

record world =
  input_name :: string
  input_is_dir :: bool
  input_files :: "(string \<times> csv) list"
  train_dir :: "(string \<times> csv) list option"
  val_dir :: "(string \<times> csv) list option"


datatype dest = Training | Validation

definition TRAIN_DIR_NAME :: string where
  "TRAIN_DIR_NAME = ''training data''"

definition VAL_DIR_NAME :: string where
  "VAL_DIR_NAME = ''validation data''"

definition dest_name :: "dest \<Rightarrow> string" where
  "dest_name d = (case d of Training \<Rightarrow> TRAIN_DIR_NAME | Validation \<Rightarrow> VAL_DIR_NAME)"

text \<open>Whether an output folder is the input folder itself.\<close>

definition is_input_folder :: "world \<Rightarrow> dest \<Rightarrow> bool" where
  "is_input_folder w d = (input_name w = dest_name d)"


record config =
  ASSUME_HEADER :: bool
  MOVE_FILES :: bool
  USE_CEIL_FOR_CUTOFF :: bool

text \<open>The values of the configuration constants in the source.\<close>

definition source_config :: config where
  "source_config = \<lparr>ASSUME_HEADER = True, MOVE_FILES = False, USE_CEIL_FOR_CUTOFF = False\<rparr>"

definition list_csv_files :: "world \<Rightarrow> string list" where
  "list_csv_files w =
     sort (filter (\<lambda>p. lower (suffix p) = ''.csv'') (map fst (input_files w)))"

fun count_all :: "world \<Rightarrow> bool \<Rightarrow> string list \<Rightarrow> error + CsvInfo list" where
  "count_all w assume_header [] = Inr []"
| "count_all w assume_header (p # ps) =
     (case map_of (input_files w) p of
        None \<Rightarrow> Inl FileNotFoundError
      | Some rows \<Rightarrow>
          (case count_all w assume_header ps of
             Inl err \<Rightarrow> Inl err
           | Inr infos \<Rightarrow>
               Inr (\<lparr>path = p, data_line_count = count_data_lines rows assume_header\<rparr> # infos)))"

definition write_csv :: "world \<Rightarrow> string \<Rightarrow> row option \<Rightarrow> csv \<Rightarrow> world" where
  "write_csv w p header_row data =
     w\<lparr>input_files :=
         AList.update p (case header_row of None \<Rightarrow> data | Some h \<Rightarrow> h # data) (input_files w)\<rparr>"

definition split_cutoff_file ::
  "world \<Rightarrow> string \<Rightarrow> string \<Rightarrow> string \<Rightarrow> bool \<Rightarrow> int \<Rightarrow> (error + int \<times> int) \<times> world" where
  "split_cutoff_file w cutoff_file out_before out_after assume_header cutoff_line_in_file =
     (case map_of (input_files w) cutoff_file of
        None \<Rightarrow> (Inl FileNotFoundError, w)
      | Some rows \<Rightarrow>
          (case split_rows rows assume_header cutoff_line_in_file of
             (header, rows_before, rows_after) \<Rightarrow>
               (Inr (int (length rows_before), int (length rows_after)),
                write_csv (write_csv w out_before header rows_before)
                  out_after header rows_after)))"

text \<open>\<^verbatim>\<open>mkdir(parents=True, exist_ok=True)\<close>: an existing folder, the input
  folder among them, stays as it is.\<close>

definition ensure_clean_dir :: "world \<Rightarrow> dest \<Rightarrow> world" where
  "ensure_clean_dir w d =
     (if is_input_folder w d then w
      else case d of
        Training \<Rightarrow> (case train_dir w of None \<Rightarrow> w\<lparr>train_dir := Some []\<rparr> | Some _ \<Rightarrow> w)
      | Validation \<Rightarrow> (case val_dir w of None \<Rightarrow> w\<lparr>val_dir := Some []\<rparr> | Some _ \<Rightarrow> w))"

text \<open>Writing a file into an output folder that is not the input folder.\<close>

definition put_file :: "world \<Rightarrow> dest \<Rightarrow> string \<Rightarrow> csv \<Rightarrow> error + world" where
  "put_file w d name content =
     (case d of
        Training \<Rightarrow>
          (case train_dir w of
             None \<Rightarrow> Inl FileNotFoundError
           | Some fs \<Rightarrow> Inr (w\<lparr>train_dir := Some (AList.update name content fs)\<rparr>))
      | Validation \<Rightarrow>
          (case val_dir w of
             None \<Rightarrow> Inl FileNotFoundError
           | Some fs \<Rightarrow> Inr (w\<lparr>val_dir := Some (AList.update name content fs)\<rparr>)))"

text \<open>
  \<^verbatim>\<open>transfer_file\<close> of a file of the input folder. When the destination folder is
  the input folder, source and destination are the same file: \<^verbatim>\<open>shutil.copy2\<close>
  raises \<^verbatim>\<open>SameFileError\<close>, and \<^verbatim>\<open>shutil.move\<close> renames the file onto
  itself, which changes nothing.
\<close>

definition transfer_file :: "world \<Rightarrow> string \<Rightarrow> dest \<Rightarrow> bool \<Rightarrow> error + world" where
  "transfer_file w src dest_dir move =
     (case map_of (input_files w) src of
        None \<Rightarrow> Inl FileNotFoundError
      | Some content \<Rightarrow>
          (if is_input_folder w dest_dir then (if move then Inr w else Inl SameFileError)
           else case put_file w dest_dir src content of
             Inl err \<Rightarrow> Inl err
           | Inr w' \<Rightarrow>
               Inr (if move then w'\<lparr>input_files := AList.delete src (input_files w')\<rparr> else w')))"

text \<open>The two \<^verbatim>\<open>for f in originals_...\<close> loops of \<^verbatim>\<open>main\<close>: the files are
  transferred one by one and each name is appended to the list of what was sent; the
  first failing transfer ends the run, in the world as it is by then.\<close>

fun transfer_loop ::
  "world \<Rightarrow> string list \<Rightarrow> dest \<Rightarrow> bool \<Rightarrow> string list \<Rightarrow> (error + string list) \<times> world" where
  "transfer_loop w [] dest_dir move sent = (Inr sent, w)"
| "transfer_loop w (f # fs) dest_dir move sent =
     (case transfer_file w f dest_dir move of
        Inl err \<Rightarrow> (Inl err, w)
      | Inr w' \<Rightarrow> transfer_loop w' fs dest_dir move (sent @ [f]))"

section \<open>Main\<close>

text \<open>What the run prints in its summary.\<close>

record summary =
  s_total_lines :: int
  s_cutoff :: int
  s_cutoff_file :: string
  s_cutoff_line_in_file :: int
  s_before_rows :: int
  s_after_rows :: int
  training_sent :: "string list"
  validation_sent :: "string list"

text \<open>The last part of \<^verbatim>\<open>main\<close>, from the transfer on.\<close>

definition transfer_all ::
  "config \<Rightarrow> world \<Rightarrow> string list \<Rightarrow> string list \<Rightarrow> string \<Rightarrow> string \<Rightarrow>
   (error + string list \<times> string list) \<times> world" where
  "transfer_all cfg w originals_before originals_after before_path after_path =
     (case transfer_loop w originals_before Training (MOVE_FILES cfg) [] of
        (Inl err, w1) \<Rightarrow> (Inl err, w1)
      | (Inr sent_train, w1) \<Rightarrow>
     (case transfer_loop w1 originals_after Validation (MOVE_FILES cfg) [] of
        (Inl err, w2) \<Rightarrow> (Inl err, w2)
      | (Inr sent_val, w2) \<Rightarrow>
     (case transfer_file w2 before_path Training (MOVE_FILES cfg) of
        Inl err \<Rightarrow> (Inl err, w2)
      | Inr w3 \<Rightarrow>
     (case transfer_file w3 after_path Validation (MOVE_FILES cfg) of
        Inl err \<Rightarrow> (Inl err, w3)
      | Inr w4 \<Rightarrow>
          (Inr (sent_train @ [before_path], sent_val @ [after_path]), w4)))))"

text \<open>The part of \<^verbatim>\<open>main\<close> after the cutoff file is known: the output folders, the
  split, the transfer.\<close>

definition split_and_transfer ::
  "config \<Rightarrow> world \<Rightarrow> CsvInfo list \<Rightarrow> int \<Rightarrow> int \<Rightarrow> int \<Rightarrow> int \<Rightarrow> (error + summary) \<times> world" where
  "split_and_transfer cfg w infos total_lines cutoff cutoff_file_idx line_in_file =
     (if \<not> nat cutoff_file_idx < length infos then (Inl IndexError, w)
      else
        let cutoff_info = infos ! nat cutoff_file_idx;
            cutoff_path = path cutoff_info;
            w1 = ensure_clean_dir (ensure_clean_dir w Training) Validation;
            before_path = stem cutoff_path @ ''_before_cutoff.csv'';
            after_path = stem cutoff_path @ ''_at_or_after_cutoff.csv''
        in (case split_cutoff_file w1 cutoff_path before_path after_path
                  (ASSUME_HEADER cfg) line_in_file of
              (Inl err, w2) \<Rightarrow> (Inl err, w2)
            | (Inr (n_before, n_after), w2) \<Rightarrow>
                (let originals_before = map path (take (nat cutoff_file_idx) infos);
                     originals_after = map path (drop (nat (cutoff_file_idx + 1)) infos)
                 in (case transfer_all cfg w2 originals_before originals_after
                           before_path after_path of
                       (Inl err, w3) \<Rightarrow> (Inl err, w3)
                     | (Inr (sent_train, sent_val), w3) \<Rightarrow>
                         (Inr \<lparr>s_total_lines = total_lines, s_cutoff = cutoff,
                               s_cutoff_file = cutoff_path,
                               s_cutoff_line_in_file = line_in_file,
                               s_before_rows = n_before, s_after_rows = n_after,
                               training_sent = sent_train, validation_sent = sent_val\<rparr>,
                          w3)))))"

text \<open>The part of \<^verbatim>\<open>main\<close> after the counting: the cutoff, the check of the
  total, the location of the cutoff.\<close>

definition cutoff_and_split ::
  "config \<Rightarrow> world \<Rightarrow> CsvInfo list \<Rightarrow> (error + summary) \<times> world" where
  "cutoff_and_split cfg w infos =
     (let total_lines = sum_list (map data_line_count infos)
      in (case compute_cutoff (USE_CEIL_FOR_CUTOFF cfg) total_lines of
            Inl err \<Rightarrow> (Inl err, w)
          | Inr cutoff \<Rightarrow>
              (if total_lines = 0 then (Inl (SystemExit TotalZero), w)
               else (case find_cutoff_location infos cutoff of
                       Inl err \<Rightarrow> (Inl err, w)
                     | Inr (cutoff_file_idx, line_in_file) \<Rightarrow>
                         (if cutoff_file_idx < 0 then (Inl (SystemExit CutoffZero), w)
                          else split_and_transfer cfg w infos total_lines cutoff
                                 cutoff_file_idx line_in_file)))))"

definition main :: "config \<Rightarrow> world \<Rightarrow> (error + summary) \<times> world" where
  "main cfg w =
     (if \<not> input_is_dir w then (Inl (SystemExit InputFolderInvalid), w)
      else
        let csv_files = list_csv_files w
        in (if csv_files = [] then (Inl (SystemExit NoCsvFiles), w)
            else (case count_all w (ASSUME_HEADER cfg) csv_files of
                    Inl err \<Rightarrow> (Inl err, w)
                  | Inr infos \<Rightarrow> cutoff_and_split cfg w infos)))"

section \<open>Example inputs\<close>

text \<open>Three files with 3, 0 and 7 data rows; an input folder with three CSV files of
  3, 3 and 4 data rows under a header, and one file that is no CSV; folders whose files
  have no data rows, or one; a folder that already holds a file named as a split output;
  and an input folder that is itself named \<^verbatim>\<open>training data\<close>.\<close>

definition example_infos :: "CsvInfo list" where
  "example_infos =
     [\<lparr>path = ''a.csv'', data_line_count = 3\<rparr>, \<lparr>path = ''b.csv'', data_line_count = 0\<rparr>,
      \<lparr>path = ''c.csv'', data_line_count = 7\<rparr>]"

definition example_world :: world where
  "example_world =
     \<lparr>input_name = ''data'', input_is_dir = True,
      input_files =
        [(''b.csv'', [[''t'', ''x''], [''1'', ''p''], [''2'', ''q''], [''3'', ''r'']]),
         (''a.csv'', [[''t'', ''x''], [''4'', ''s''], [''5'', ''t''], [''6'', ''u'']]),
         (''c.CSV'', [[''t'', ''x''], [''7'', ''v''], [''8'', ''w''], [''9'', ''x''], [''10'', ''y'']]),
         (''notes.txt'', [[''n'']])],
      train_dir = None, val_dir = None\<rparr>"

definition example_headers_only :: world where
  "example_headers_only =
     \<lparr>input_name = ''data'', input_is_dir = True,
      input_files = [(''b.csv'', [[''t'', ''x'']]), (''a.csv'', [])],
      train_dir = None, val_dir = None\<rparr>"

definition example_single_row :: world where
  "example_single_row =
     \<lparr>input_name = ''data'', input_is_dir = True,
      input_files = [(''a.csv'', [[''t'', ''x''], [''1'', ''p'']])],
      train_dir = None, val_dir = None\<rparr>"





definition example_in_training :: world where
  "example_in_training =
     \<lparr>input_name = ''training data'', input_is_dir = True,
      input_files =
        [(''a.csv'', [[''h''], [''1''], [''2'']]),
         (''b.csv'', [[''h''], [''3''], [''4''], [''5''], [''6''], [''7''], [''8''], [''9''],
                      [''10'']])],
      train_dir = None, val_dir = None\<rparr>"

section \<open>Locating the cutoff\<close>

lemma locate_loop_found:
  "running < cutoff \<Longrightarrow> cutoff \<le> running + sum_list (map data_line_count infos) \<Longrightarrow>
   \<exists>j<length infos.
     locate_loop infos cutoff i running =
       Some (i + int j, cutoff - (running + sum_list (map data_line_count (take j infos)))) \<and>
     cutoff \<le> running + sum_list (map data_line_count (take (Suc j) infos)) \<and>
     (\<forall>l\<le>j. running + sum_list (map data_line_count (take l infos)) < cutoff)"
proof (induction infos arbitrary: i running)
  case Nil
  then show ?case by simp
next
  case (Cons info rest)
  show ?case
  proof (cases "cutoff \<le> running + data_line_count info")
    case True
    with Cons.prems show ?thesis
      by (intro exI[of _ 0]) simp
  next
    case False
    then have lt: "running + data_line_count info < cutoff" by simp
    from Cons.prems have le: "cutoff \<le> running + data_line_count info
        + sum_list (map data_line_count rest)" by simp
    from Cons.IH[OF lt le, of "i + 1"] obtain j where j: "j < length rest"
      and loc: "locate_loop rest cutoff (i + 1) (running + data_line_count info) =
        Some (i + 1 + int j, cutoff - (running + data_line_count info
          + sum_list (map data_line_count (take j rest))))"
      and ge: "cutoff \<le> running + data_line_count info
          + sum_list (map data_line_count (take (Suc j) rest))"
      and before: "\<forall>l\<le>j. running + data_line_count info
          + sum_list (map data_line_count (take l rest)) < cutoff"
      by blast
    have all: "\<forall>l\<le>Suc j. running + sum_list (map data_line_count (take l (info # rest))) < cutoff"
    proof (intro allI impI)
      fix l assume l: "l \<le> Suc j"
      show "running + sum_list (map data_line_count (take l (info # rest))) < cutoff"
      proof (cases l)
        case 0
        with Cons.prems show ?thesis by simp
      next
        case (Suc l')
        with l before show ?thesis by (simp add: add.assoc)
      qed
    qed
    show ?thesis
      using False j loc ge all
      by (intro exI[of _ "Suc j"]) (simp add: add.assoc)
  qed
qed

lemma locate_loop_none:
  "\<forall>info\<in>set infos. 0 \<le> data_line_count info \<Longrightarrow>
   running + sum_list (map data_line_count infos) < cutoff \<Longrightarrow>
   locate_loop infos cutoff i running = None"
proof (induction infos arbitrary: i running)
  case Nil
  then show ?case by simp
next
  case (Cons info rest)
  have nonneg: "0 \<le> sum_list (map data_line_count rest)"
    using Cons.prems(1) by (intro sum_list_nonneg) auto
  with Cons.prems have "running + data_line_count info < cutoff" by simp
  moreover have "locate_loop rest cutoff (i + 1) (running + data_line_count info) = None"
    using Cons.prems by (intro Cons.IH) (simp_all add: add.assoc)
  ultimately show ?case by simp
qed

text \<open>
  C1. For every sequence of row counts and every cutoff with
  \<open>1 \<le> cutoff \<le> sum of all counts\<close>, \<open>find_cutoff_location\<close> returns the index of the
  first file whose cumulative count through that file is at least the cutoff; the
  cumulative count through the prior file is below the cutoff; and the row in the file is
  the cutoff minus the cumulative count before that file.
\<close>

theorem find_cutoff_location_first_file:
  assumes "1 \<le> cutoff" and "cutoff \<le> sum_list (map data_line_count infos)"
  shows "\<exists>i<length infos.
     find_cutoff_location infos cutoff =
       Inr (int i, cutoff - sum_list (map data_line_count (take i infos))) \<and>
     cutoff \<le> sum_list (map data_line_count (take (Suc i) infos)) \<and>
     sum_list (map data_line_count (take i infos)) < cutoff \<and>
     (\<forall>j<i. sum_list (map data_line_count (take (Suc j) infos)) < cutoff)"
proof -
  from assms have "(0::int) < cutoff" "cutoff \<le> 0 + sum_list (map data_line_count infos)"
    by simp_all
  from locate_loop_found[OF this, of 0] obtain i where i: "i < length infos"
    and loc: "locate_loop infos cutoff 0 0 =
      Some (int i, cutoff - sum_list (map data_line_count (take i infos)))"
    and ge: "cutoff \<le> sum_list (map data_line_count (take (Suc i) infos))"
    and before: "\<forall>l\<le>i. sum_list (map data_line_count (take l infos)) < cutoff"
    by auto
  from before have "\<forall>j<i. sum_list (map data_line_count (take (Suc j) infos)) < cutoff"
    by (simp add: Suc_le_eq)
  moreover from before have "sum_list (map data_line_count (take i infos)) < cutoff"
    by simp
  moreover from assms loc have "find_cutoff_location infos cutoff =
      Inr (int i, cutoff - sum_list (map data_line_count (take i infos)))"
    by (simp add: find_cutoff_location_def)
  ultimately show ?thesis using i ge by blast
qed

lemma example_infos_sum: "sum_list (map data_line_count example_infos) = 10"
  by (simp add: example_infos_def)

theorem find_cutoff_location_first_file_witness:
  "(1::int) \<le> 9 \<and> 9 \<le> sum_list (map data_line_count example_infos) \<and>
   (\<exists>i<length example_infos.
     find_cutoff_location example_infos 9 =
       Inr (int i, 9 - sum_list (map data_line_count (take i example_infos))) \<and>
     9 \<le> sum_list (map data_line_count (take (Suc i) example_infos)) \<and>
     sum_list (map data_line_count (take i example_infos)) < 9 \<and>
     (\<forall>j<i. sum_list (map data_line_count (take (Suc j) example_infos)) < 9))"
proof -
  have h1: "(1::int) \<le> 9" by simp
  have h2: "9 \<le> sum_list (map data_line_count example_infos)"
    by (simp add: example_infos_sum)
  from find_cutoff_location_first_file[OF h1 h2] h1 h2 show ?thesis by blast
qed

lemma find_cutoff_location_example: "find_cutoff_location example_infos 9 = Inr (2, 6)"
  by (simp add: find_cutoff_location_def example_infos_def)

text \<open>
  C7. For every non-empty sequence of (non-negative) row counts and every cutoff above the
  sum of all counts, \<open>find_cutoff_location\<close> returns the index of the last file and
  that file's row count.
\<close>

theorem find_cutoff_location_beyond_total:
  assumes "infos \<noteq> []" and "\<forall>info\<in>set infos. 0 \<le> data_line_count info"
    and "sum_list (map data_line_count infos) < cutoff"
  shows "find_cutoff_location infos cutoff =
     Inr (int (length infos) - 1, data_line_count (last infos))"
proof -
  have "0 \<le> sum_list (map data_line_count infos)"
    using assms(2) by (intro sum_list_nonneg) auto
  with assms(3) have pos: "0 < cutoff" by simp
  from assms(2,3) have "locate_loop infos cutoff 0 0 = None"
    by (intro locate_loop_none) simp_all
  with pos assms(1) show ?thesis by (simp add: find_cutoff_location_def)
qed

theorem find_cutoff_location_beyond_total_witness:
  "example_infos \<noteq> [] \<and> sum_list (map data_line_count example_infos) < 11 \<and>
   find_cutoff_location example_infos 11 = Inr (2, 7)"
proof -
  have h1: "example_infos \<noteq> []" by (simp add: example_infos_def)
  have h2: "\<forall>info\<in>set example_infos. 0 \<le> data_line_count info"
    by (simp add: example_infos_def)
  have h3: "sum_list (map data_line_count example_infos) < 11"
    by (simp add: example_infos_sum)
  have "find_cutoff_location example_infos 11 =
      Inr (int (length example_infos) - 1, data_line_count (last example_infos))"
    using h1 h2 h3 by (rule find_cutoff_location_beyond_total)
  then have "find_cutoff_location example_infos 11 = Inr (2, 7)"
    by (simp add: example_infos_def)
  with h1 h3 show ?thesis by blast
qed

section \<open>Splitting the cutoff file\<close>

lemma sum_take_Suc:
  "i < length infos \<Longrightarrow>
   sum_list (map data_line_count (take (Suc i) infos)) =
     sum_list (map data_line_count (take i infos)) + data_line_count (infos ! i)"
  by (simp add: take_Suc_conv_app_nth)

lemma split_rows_eq:
  "split_rows rows h r =
     (if h \<and> rows \<noteq> [] then Some (hd rows) else None,
      take (nat (max 1 (min r (int (length (data_rows_of rows h)) + 1)) - 1))
        (data_rows_of rows h),
      drop (nat (max 1 (min r (int (length (data_rows_of rows h)) + 1)) - 1))
        (data_rows_of rows h))"
  by (simp add: split_rows_def data_rows_of_def Let_def)

lemma count_data_lines_length:
  "count_data_lines rows h = int (length (data_rows_of rows h))"
  by (cases rows) (simp_all add: count_data_lines_def data_rows_of_def Let_def)

lemma split_cutoff_file_eq:
  "map_of (input_files w) cutoff_file = Some rows \<Longrightarrow>
   split_cutoff_file w cutoff_file out_before out_after h r =
     (case split_rows rows h r of
        (header, rows_before, rows_after) \<Rightarrow>
          (Inr (int (length rows_before), int (length rows_after)),
           write_csv (write_csv w out_before header rows_before) out_after header rows_after))"
  by (simp add: split_cutoff_file_def)

lemma map_of_write_csv:
  "map_of (input_files (write_csv w p header_row data)) =
     (map_of (input_files w))(p \<mapsto> (case header_row of None \<Rightarrow> data | Some h \<Rightarrow> h # data))"
  by (simp add: write_csv_def update_conv')

text \<open>
  C2. For every file and every integer row number, also below 1 or above \<open>n + 1\<close>,
  \<open>split_cutoff_file\<close> returns two counts whose sum is the number \<open>n\<close> of data rows
  of the file; the first count is the clamped row number minus one.
\<close>

theorem split_cutoff_file_counts:
  assumes "map_of (input_files w) cutoff_file = Some rows"
  shows "\<exists>nb na w'.
     split_cutoff_file w cutoff_file out_before out_after h r = (Inr (nb, na), w') \<and>
     nb + na = int (length (data_rows_of rows h)) \<and>
     nb + na = count_data_lines rows h \<and>
     nb = max 1 (min r (int (length (data_rows_of rows h)) + 1)) - 1"
  using assms
  by (simp add: split_cutoff_file_eq split_rows_eq count_data_lines_length)

theorem split_cutoff_file_counts_witness:
  "map_of (input_files example_world) ''c.CSV'' =
     Some [[''t'', ''x''], [''7'', ''v''], [''8'', ''w''], [''9'', ''x''], [''10'', ''y'']] \<and>
   (\<exists>nb na w'.
     split_cutoff_file example_world ''c.CSV'' ''c_before_cutoff.csv''
       ''c_at_or_after_cutoff.csv'' True 100 = (Inr (nb, na), w') \<and>
     nb + na = 4 \<and> nb = 4)"
proof -
  let ?rows = "[[''t'', ''x''], [''7'', ''v''], [''8'', ''w''], [''9'', ''x''], [''10'', ''y'']]"
  have h: "map_of (input_files example_world) ''c.CSV'' = Some ?rows"
    by (simp add: example_world_def)
  have n: "int (length (data_rows_of ?rows True)) = 4"
    by (simp add: data_rows_of_def)
  from split_cutoff_file_counts[OF h, of "''c_before_cutoff.csv''"
      "''c_at_or_after_cutoff.csv''" True 100]
  obtain nb na w' where
    "split_cutoff_file example_world ''c.CSV'' ''c_before_cutoff.csv''
       ''c_at_or_after_cutoff.csv'' True 100 = (Inr (nb, na), w')"
    "nb + na = int (length (data_rows_of ?rows True))"
    "nb = max 1 (min 100 (int (length (data_rows_of ?rows True)) + 1)) - 1"
    by blast
  with n have "split_cutoff_file example_world ''c.CSV'' ''c_before_cutoff.csv''
       ''c_at_or_after_cutoff.csv'' True 100 = (Inr (nb, na), w') \<and> nb + na = 4 \<and> nb = 4"
    by simp
  with h show ?thesis by blast
qed

text \<open>
  C3. For every file and every row number, the rows written to the "before" output
  followed by the rows written to the "at or after" output are the data rows of the file,
  in order; each output starts with the header when the file has one.
\<close>

theorem split_cutoff_file_roundtrip:
  assumes "map_of (input_files w) cutoff_file = Some rows" and "out_before \<noteq> out_after"
  shows "\<exists>rows_before rows_after nb na w'.
     split_cutoff_file w cutoff_file out_before out_after h r = (Inr (nb, na), w') \<and>
     map_of (input_files w') out_before =
       Some ((if h \<and> rows \<noteq> [] then [hd rows] else []) @ rows_before) \<and>
     map_of (input_files w') out_after =
       Some ((if h \<and> rows \<noteq> [] then [hd rows] else []) @ rows_after) \<and>
     nb = int (length rows_before) \<and> na = int (length rows_after) \<and>
     rows_before @ rows_after = data_rows_of rows h"
  using assms
  by (simp add: split_cutoff_file_eq split_rows_eq map_of_write_csv)

theorem split_cutoff_file_roundtrip_witness:
  "map_of (input_files example_world) ''c.CSV'' =
     Some [[''t'', ''x''], [''7'', ''v''], [''8'', ''w''], [''9'', ''x''], [''10'', ''y'']] \<and>
   ''c_before_cutoff.csv'' \<noteq> ''c_at_or_after_cutoff.csv'' \<and>
   (\<exists>rows_before rows_after nb na w'.
     split_cutoff_file example_world ''c.CSV'' ''c_before_cutoff.csv''
       ''c_at_or_after_cutoff.csv'' True 3 = (Inr (nb, na), w') \<and>
     map_of (input_files w') ''c_before_cutoff.csv'' = Some ([[''t'', ''x'']] @ rows_before) \<and>
     map_of (input_files w') ''c_at_or_after_cutoff.csv'' = Some ([[''t'', ''x'']] @ rows_after) \<and>
     rows_before @ rows_after = [[''7'', ''v''], [''8'', ''w''], [''9'', ''x''], [''10'', ''y'']])"
proof -
  let ?rows = "[[''t'', ''x''], [''7'', ''v''], [''8'', ''w''], [''9'', ''x''], [''10'', ''y'']]"
  have h1: "map_of (input_files example_world) ''c.CSV'' = Some ?rows"
    by (simp add: example_world_def)
  have h2: "''c_before_cutoff.csv'' \<noteq> ''c_at_or_after_cutoff.csv''" by simp
  have d: "data_rows_of ?rows True = [[''7'', ''v''], [''8'', ''w''], [''9'', ''x''], [''10'', ''y'']]"
    by (simp add: data_rows_of_def)
  from split_cutoff_file_roundtrip[OF h1 h2, of True 3] d h1 h2 show ?thesis
    by simp blast
qed

text \<open>
  C10. For every sequence of row counts and every cutoff with
  \<open>1 \<le> cutoff \<le> sum of all counts\<close>, the located file has at least one data row and
  the returned row number lies between 1 and that file's row count, so the clamp of
  \<open>split_rows\<close> leaves it as it is: the split is at that row.
\<close>

theorem located_row_within_file:
  assumes "1 \<le> cutoff" and "cutoff \<le> sum_list (map data_line_count infos)"
  shows "\<exists>i r. i < length infos \<and> find_cutoff_location infos cutoff = Inr (int i, r) \<and>
     1 \<le> data_line_count (infos ! i) \<and> 1 \<le> r \<and> r \<le> data_line_count (infos ! i) \<and>
     max 1 (min r (data_line_count (infos ! i) + 1)) = r \<and>
     (\<forall>rows h. count_data_lines rows h = data_line_count (infos ! i) \<longrightarrow>
        split_rows rows h r =
          (if h \<and> rows \<noteq> [] then Some (hd rows) else None,
           take (nat (r - 1)) (data_rows_of rows h), drop (nat (r - 1)) (data_rows_of rows h)))"
proof -
  from assms have "(0::int) < cutoff" "cutoff \<le> 0 + sum_list (map data_line_count infos)"
    by simp_all
  from locate_loop_found[OF this, of 0] obtain i where i: "i < length infos"
    and loc: "locate_loop infos cutoff 0 0 =
      Some (int i, cutoff - sum_list (map data_line_count (take i infos)))"
    and ge: "cutoff \<le> sum_list (map data_line_count (take (Suc i) infos))"
    and before: "\<forall>l\<le>i. sum_list (map data_line_count (take l infos)) < cutoff"
    by auto
  define r where "r = cutoff - sum_list (map data_line_count (take i infos))"
  from before have lt: "sum_list (map data_line_count (take i infos)) < cutoff" by simp
  from ge i have ge': "cutoff \<le> sum_list (map data_line_count (take i infos))
      + data_line_count (infos ! i)"
    by (simp add: sum_take_Suc)
  from lt have r1: "1 \<le> r" by (simp add: r_def)
  from ge' have r2: "r \<le> data_line_count (infos ! i)" by (simp add: r_def)
  from r1 r2 have c1: "1 \<le> data_line_count (infos ! i)" by linarith
  from r1 r2 have clamp: "max 1 (min r (data_line_count (infos ! i) + 1)) = r" by simp
  from assms loc have f: "find_cutoff_location infos cutoff = Inr (int i, r)"
    by (simp add: find_cutoff_location_def r_def)
  have "split_rows rows h r =
          (if h \<and> rows \<noteq> [] then Some (hd rows) else None,
           take (nat (r - 1)) (data_rows_of rows h), drop (nat (r - 1)) (data_rows_of rows h))"
    if "count_data_lines rows h = data_line_count (infos ! i)" for rows :: "'a list" and h
  proof -
    from that have "int (length (data_rows_of rows h)) = data_line_count (infos ! i)"
      by (simp add: count_data_lines_length)
    with clamp show ?thesis by (simp add: split_rows_eq)
  qed
  with i f c1 r1 r2 clamp show ?thesis by blast
qed

theorem located_row_within_file_witness:
  "(1::int) \<le> 9 \<and> 9 \<le> sum_list (map data_line_count example_infos) \<and>
   find_cutoff_location example_infos 9 = Inr (2, 6) \<and>
   1 \<le> data_line_count (example_infos ! 2) \<and> 6 \<le> data_line_count (example_infos ! 2) \<and>
   count_data_lines [''h'', ''1'', ''2'', ''3'', ''4'', ''5'', ''6'', ''7''] True =
     data_line_count (example_infos ! 2) \<and>
   split_rows [''h'', ''1'', ''2'', ''3'', ''4'', ''5'', ''6'', ''7''] True 6 =
     (Some ''h'', [''1'', ''2'', ''3'', ''4'', ''5''], [''6'', ''7''])"
proof -
  let ?rows = "[''h'', ''1'', ''2'', ''3'', ''4'', ''5'', ''6'', ''7'']"
  have h1: "(1::int) \<le> 9" by simp
  have h2: "9 \<le> sum_list (map data_line_count example_infos)"
    by (simp add: example_infos_sum)
  from located_row_within_file[OF h1 h2, where ?'a = string] obtain i r
    where loc: "find_cutoff_location example_infos 9 = Inr (int i, r)"
      and c: "1 \<le> data_line_count (example_infos ! i)"
      and r: "r \<le> data_line_count (example_infos ! i)"
      and split: "\<forall>rows h. count_data_lines rows h = data_line_count (example_infos ! i) \<longrightarrow>
        split_rows rows h r =
          (if h \<and> rows \<noteq> [] then Some (hd rows) else None,
           take (nat (r - 1)) (data_rows_of rows h),
           drop (nat (r - 1)) (data_rows_of rows h :: string list))"
    by blast
  from loc have ir: "i = 2" "r = 6" by (simp_all add: find_cutoff_location_example)
  have n: "count_data_lines ?rows True = data_line_count (example_infos ! 2)"
    by (simp add: count_data_lines_def example_infos_def)
  with split ir have "split_rows ?rows True 6 =
      (Some ''h'', [''1'', ''2'', ''3'', ''4'', ''5''], [''6'', ''7''])"
    by (simp add: data_rows_of_def)
  with h1 h2 loc c r ir n show ?thesis by simp
qed

section \<open>The run as a whole\<close>

lemma compute_cutoff_nonpos: "total_lines \<le> 0 \<Longrightarrow> compute_cutoff use_ceil total_lines = Inr 0"
  by (simp add: compute_cutoff_def)

lemma int_true_divide_9_10: "int_true_divide 9 10 = Inr (8106479329266893, - 53)"
  by code_simp

lemma compute_cutoff_floor_1: "compute_cutoff False 1 = Inr 0"
  by (simp add: compute_cutoff_def int_true_divide_9_10 math_floor_def)

lemma compute_cutoff_ceil_1: "compute_cutoff True 1 = Inr 1"
  by (simp add: compute_cutoff_def int_true_divide_9_10 math_ceil_def)

lemma count_all_paths:
  "count_all w h ps = Inr infos \<Longrightarrow> map path infos = ps"
  by (induction ps arbitrary: infos) (auto split: option.splits sum.splits)

text \<open>
  C8. When the input folder is valid and holds at least one CSV file, and the data rows of
  all its CSV files add up to 0, the run ends with the \<^verbatim>\<open>SystemExit\<close> for a total
  of zero, and the world is as it was: no output folder is made, no split file is written
  and nothing is transferred.
\<close>

theorem main_total_zero:
  assumes "input_is_dir w" and "list_csv_files w \<noteq> []"
    and "count_all w (ASSUME_HEADER cfg) (list_csv_files w) = Inr infos"
    and "sum_list (map data_line_count infos) = 0"
  shows "main cfg w = (Inl (SystemExit TotalZero), w)"
  using assms by (simp add: main_def cutoff_and_split_def compute_cutoff_nonpos)

lemma list_csv_files_headers_only: "list_csv_files example_headers_only = [''a.csv'', ''b.csv'']"
  by code_simp

theorem main_total_zero_witness:
  "input_is_dir example_headers_only \<and> list_csv_files example_headers_only \<noteq> [] \<and>
   count_all example_headers_only (ASSUME_HEADER source_config)
     (list_csv_files example_headers_only) =
     Inr [\<lparr>path = ''a.csv'', data_line_count = 0\<rparr>, \<lparr>path = ''b.csv'', data_line_count = 0\<rparr>] \<and>
   main source_config example_headers_only = (Inl (SystemExit TotalZero), example_headers_only)"
proof -
  let ?infos = "[\<lparr>path = ''a.csv'', data_line_count = 0\<rparr>, \<lparr>path = ''b.csv'', data_line_count = 0\<rparr>]"
  have h1: "input_is_dir example_headers_only" by (simp add: example_headers_only_def)
  have h2: "list_csv_files example_headers_only \<noteq> []"
    by (simp add: list_csv_files_headers_only)
  have h3: "count_all example_headers_only (ASSUME_HEADER source_config)
      (list_csv_files example_headers_only) = Inr ?infos"
    unfolding list_csv_files_headers_only
    by (simp add: source_config_def example_headers_only_def count_data_lines_def)
  have h4: "sum_list (map data_line_count ?infos) = 0" by simp
  from main_total_zero[OF h1 h2 h3 h4] h1 h2 h3 show ?thesis by simp
qed

text \<open>
  C9. With the floor policy and a total of exactly one data row, the cutoff is 0,
  \<open>find_cutoff_location\<close> returns \<open>(-1, -1)\<close>, and the run ends with the
  \<^verbatim>\<open>SystemExit\<close> for a cutoff of zero in an unchanged world, although the total is
  positive.
\<close>

theorem main_single_row_floor:
  assumes "input_is_dir w"
    and "count_all w (ASSUME_HEADER cfg) (list_csv_files w) = Inr infos"
    and "sum_list (map data_line_count infos) = 1"
    and "\<not> USE_CEIL_FOR_CUTOFF cfg"
  shows "compute_cutoff (USE_CEIL_FOR_CUTOFF cfg) 1 = Inr 0 \<and>
     find_cutoff_location infos 0 = Inr (- 1, - 1) \<and>
     main cfg w = (Inl (SystemExit CutoffZero), w)"
proof -
  from assms(3) have "infos \<noteq> []" by auto
  with count_all_paths[OF assms(2)] have ne: "list_csv_files w \<noteq> []" by auto
  have loc: "find_cutoff_location infos 0 = Inr (- 1, - 1)"
    by (simp add: find_cutoff_location_def)
  from assms(4) have cut: "compute_cutoff (USE_CEIL_FOR_CUTOFF cfg) 1 = Inr 0"
    by (simp add: compute_cutoff_floor_1)
  from assms(1,2,3) ne cut loc have "main cfg w = (Inl (SystemExit CutoffZero), w)"
    by (simp add: main_def cutoff_and_split_def)
  with cut loc show ?thesis by simp
qed

lemma list_csv_files_single_row: "list_csv_files example_single_row = [''a.csv'']"
  by code_simp

theorem main_single_row_floor_witness:
  "input_is_dir example_single_row \<and>
   count_all example_single_row (ASSUME_HEADER source_config)
     (list_csv_files example_single_row) = Inr [\<lparr>path = ''a.csv'', data_line_count = 1\<rparr>] \<and>
   compute_cutoff (USE_CEIL_FOR_CUTOFF source_config) 1 = Inr 0 \<and>
   main source_config example_single_row = (Inl (SystemExit CutoffZero), example_single_row)"
proof -
  let ?infos = "[\<lparr>path = ''a.csv'', data_line_count = 1\<rparr>]"
  have h1: "input_is_dir example_single_row" by (simp add: example_single_row_def)
  have h2: "count_all example_single_row (ASSUME_HEADER source_config)
      (list_csv_files example_single_row) = Inr ?infos"
    unfolding list_csv_files_single_row
    by (simp add: source_config_def example_single_row_def count_data_lines_def)
  have h3: "sum_list (map data_line_count ?infos) = 1" by simp
  have h4: "\<not> USE_CEIL_FOR_CUTOFF source_config" by (simp add: source_config_def)
  from main_single_row_floor[OF h1 h2 h3 h4] h1 h2 show ?thesis by simp
qed

section \<open>The cutoff as a float\<close>

text \<open>The rounded quotient is within half a unit of the exact one.\<close>

lemma round_half_even_bounds:
  assumes "0 < b"
  shows "2 * (round_half_even a b * b) \<le> 2 * a + b \<and> 2 * a \<le> 2 * (round_half_even a b * b) + b"
proof -
  define q r where "q = a div b" and "r = a mod b"
  have a: "a = q * b + r" by (simp add: q_def r_def)
  from assms have r: "0 \<le> r" "r < b" by (simp_all add: r_def)
  have m: "round_half_even a b = q \<and> 2 * r \<le> b \<or> round_half_even a b = q + 1 \<and> b \<le> 2 * r"
    by (auto simp: round_half_even_def Let_def q_def r_def)
  then show ?thesis
  proof
    assume "round_half_even a b = q \<and> 2 * r \<le> b"
    with a r show ?thesis by simp
  next
    assume "round_half_even a b = q + 1 \<and> b \<le> 2 * r"
    with a r show ?thesis by (simp add: algebra_simps)
  qed
qed

lemma bitlen_10: "bitlen 10 = 4"
  by code_simp

text \<open>The binary exponent of \<open>9 * T / 10\<close>, for \<open>T \<ge> 2\<close>.\<close>

lemma floor_log2_quot_9_10:
  assumes "2 \<le> T"
  shows "\<exists>S. floor_log2_quot (9 * T) 10 = int S \<and> 10 * 2 ^ S \<le> 9 * T \<and> 9 * T < 20 * 2 ^ S"
proof -
  define L where "L = bitlen (9 * T)"
  from assms have pos: "0 < 9 * T" by simp
  from bitlen_bounds[OF pos] have lo: "2 ^ nat (L - 1) \<le> 9 * T" and hi: "9 * T < 2 ^ nat L"
    by (simp_all add: L_def)
  have "(2::int) ^ 4 < 2 ^ nat L" using assms hi by simp
  then have "4 < nat L" by (simp only: power_strict_increasing_iff) 
  then have "L = int (nat L - 5) + 5" by simp
  then obtain d where d: "L = int d + 5" ..
  have nL: "nat L = d + 5" "nat (L - 1) = d + 4" by (simp_all add: d)
  from lo hi have lo': "16 * 2 ^ d \<le> 9 * T" and hi': "9 * T < 32 * 2 ^ d"
    by (simp_all add: nL power_add)
  have dd: "bitlen (9 * T) - bitlen 10 = int (Suc d)" by (simp add: bitlen_10 L_def[symmetric] d)
  have p: "(0::int) < 2 ^ d" by simp
  have fl: "floor_log2_quot (9 * T) 10 =
      (if 10 * 2 ^ Suc d \<le> 9 * T then int (Suc d) else int (Suc d) - 1)"
    unfolding floor_log2_quot_def Let_def dd
    by (simp only: nat_int nat_zminus_int power_0 mult_1_right)
  show ?thesis
  proof (cases "10 * 2 ^ Suc d \<le> 9 * T")
    case True
    with fl have "floor_log2_quot (9 * T) 10 = int (Suc d)" by (simp only: if_True)
    moreover from hi' p have "9 * T < 20 * 2 ^ Suc d" unfolding power_Suc by linarith
    ultimately show ?thesis using True by blast
  next
    case False
    with fl have "floor_log2_quot (9 * T) 10 = int (Suc d) - 1" by (simp only: if_False)
    then have "floor_log2_quot (9 * T) 10 = int d" by simp
    moreover from lo' p have "10 * 2 ^ d \<le> 9 * T" by linarith
    moreover from False have "9 * T < 20 * 2 ^ d" unfolding power_Suc by linarith
    ultimately show ?thesis by blast
  qed
qed

lemma int_true_divide_small:
  assumes "2 \<le> T" and "floor_log2_quot (9 * T) 10 = int S" and "S < 52"
  shows "int_true_divide (9 * T) 10 =
     Inr (round_half_even (9 * T * 2 ^ (52 - S)) 10, int S - 52)"
proof -
  have e: "max (int S - 52) (- 1074) = int S - 52" by simp
  from assms(3) have n1: "nat (- (int S - 52)) = 52 - S" and n2: "nat (int S - 52) = 0"
    and neg: "\<not> 0 \<le> int S - 52"
    by simp_all
  from assms(1) have nz: "9 * T \<noteq> 0" and ab: "\<bar>9 * T\<bar> = 9 * T" and sg: "\<not> 9 * T < 0"
    by simp_all
  show ?thesis
    unfolding int_true_divide_def Let_def abs_numeral ab assms(2) e n1 n2
    using nz sg neg by simp
qed

lemma int_true_divide_large:
  assumes "2 \<le> T" and "floor_log2_quot (9 * T) 10 = int S" and "52 \<le> S"
  shows "int_true_divide (9 * T) 10 =
     (if 2 ^ 1024 \<le> round_half_even (9 * T) (10 * 2 ^ (S - 52)) * 2 ^ (S - 52)
      then Inl OverflowError
      else Inr (round_half_even (9 * T) (10 * 2 ^ (S - 52)), int S - 52))"
proof -
  have e: "max (int S - 52) (- 1074) = int S - 52" by simp
  from assms(3) have n1: "nat (- (int S - 52)) = 0" and n2: "nat (int S - 52) = S - 52"
    and pos: "0 \<le> int S - 52"
    by simp_all
  from assms(1) have nz: "9 * T \<noteq> 0" and ab: "\<bar>9 * T\<bar> = 9 * T" and sg: "\<not> 9 * T < 0"
    by simp_all
  show ?thesis
    unfolding int_true_divide_def Let_def abs_numeral ab assms(2) e n1 n2
    using nz sg pos by simp
qed

text \<open>With at least three fractional bits in the mantissa, rounding \<open>9 * T / 10\<close> to a
  float changes neither its floor nor its ceiling.\<close>

lemma scaled_round_floor:
  fixes m P T :: int
  assumes "8 \<le> P" and "10 * m \<le> 9 * T * P + 5" and "9 * T * P \<le> 10 * m + 5"
  shows "m div P = (9 * T) div 10 \<and> - ((- m) div P) = - ((- (9 * T)) div 10)"
proof -
  define q r where "q = (9 * T) div 10" and "r = (9 * T) mod 10"
  have T: "9 * T = 10 * q + r" by (simp add: q_def r_def)
  have r: "0 \<le> r" "r < 10" by (simp_all add: r_def)
  have "9 * T * P = (10 * q + r) * P" by (simp only: T)
  then have TP: "9 * T * P = 10 * (q * P) + r * P" by (simp add: algebra_simps)
  show ?thesis
  proof (cases "r = 0")
    case True
    with TP assms have "m = q * P" by simp
    moreover from True T have "- (9 * T) = 10 * (- q)" by simp
    ultimately show ?thesis using assms(1) unfolding q_def[symmetric]
      by (metis T True add.right_neutral div_minus_minus minus_mult_left
          nonzero_mult_div_cancel_left nonzero_mult_div_cancel_right
          not_numeral_le_zero zero_neq_numeral)
  next
    case False
    with r have r1: "1 \<le> r" "r \<le> 9" by simp_all
    from assms(1) r1 have "1 * P \<le> r * P" "r * P \<le> 9 * P"
      by (intro mult_right_mono; simp)+
    then have rP: "P \<le> r * P" "r * P \<le> 9 * P" by simp_all
    from TP assms rP have lo: "q * P < m" by linarith
    from TP assms rP have hi: "m < q * P + P" by linarith
    have d1: "m div P = q"
    proof (rule int_div_pos_eq)
      show "m = P * q + (m - q * P)" by simp
      show "0 \<le> m - q * P" using lo by simp
      show "m - q * P < P" using hi by simp
    qed
    have d2: "(- m) div P = - (q + 1)"
    proof (rule int_div_pos_eq)
      show "- m = P * (- (q + 1)) + (q * P + P - m)" by (simp add: algebra_simps)
      show "0 \<le> q * P + P - m" using hi by simp
      show "q * P + P - m < P" using lo by simp
    qed
    have d3: "(- (9 * T)) div 10 = - (q + 1)"
    proof (rule int_div_pos_eq)
      show "- (9 * T) = 10 * (- (q + 1)) + (10 - r)" by (simp add: T)
      show "0 \<le> 10 - r" using r by simp
      show "10 - r < 10" using r1 by simp
    qed
    from d1 d2 d3 show ?thesis by (simp add: q_def)
  qed
qed

lemma floor_9_10: "\<lfloor>9 * real_of_int T / 10\<rfloor> = (9 * T) div 10"
proof -
  have "9 * real_of_int T / 10 = real_of_int (9 * T) / real_of_int 10" by simp
  then show ?thesis by (simp only: floor_divide_of_int_eq)
qed

lemma ceiling_9_10: "\<lceil>9 * real_of_int T / 10\<rceil> = - ((- (9 * T)) div 10)"
proof -
  have "- (9 * real_of_int T / 10) = real_of_int (- (9 * T)) / real_of_int 10" by simp
  then have "\<lfloor>- (9 * real_of_int T / 10)\<rfloor> = (- (9 * T)) div 10"
    by (simp only: floor_divide_of_int_eq)
  then show ?thesis by (simp only: ceiling_def)
qed

lemma compute_cutoff_small_exponent:
  assumes "2 \<le> T" and "floor_log2_quot (9 * T) 10 = int S" and "S < 52"
  shows "compute_cutoff use_ceil T =
     Inr (if use_ceil then - ((- round_half_even (9 * T * 2 ^ (52 - S)) 10) div 2 ^ (52 - S))
          else round_half_even (9 * T * 2 ^ (52 - S)) 10 div 2 ^ (52 - S))"
proof -
  from assms(3) have n: "nat (- (int S - 52)) = 52 - S" and neg: "\<not> 0 \<le> int S - 52"
    by simp_all
  from assms(1) have "\<not> T \<le> 0" by simp
  then show ?thesis
    unfolding compute_cutoff_def int_true_divide_small[OF assms] math_floor_def math_ceil_def
    by (simp only: if_False sum.case prod.case neg n)
qed

lemma compute_cutoff_exact_from_2:
  assumes "2 \<le> T" and "9 * T < 10 * 2 ^ 50"
  shows "compute_cutoff use_ceil T =
     Inr (if use_ceil then - ((- (9 * T)) div 10) else (9 * T) div 10)"
proof -
  from floor_log2_quot_9_10[OF assms(1)] obtain S where
    S: "floor_log2_quot (9 * T) 10 = int S" and lo: "10 * 2 ^ S \<le> 9 * T"
    by blast
  from lo assms(2) have "(2::int) ^ S < 2 ^ 50" by linarith
  then have S50: "S < 50" by (simp only: power_strict_increasing_iff) 
  then have S52: "S < 52" by simp
  define P :: int where "P = 2 ^ (52 - S)"
  define m where "m = round_half_even (9 * T * P) 10"
  from S50 have "(2::int) ^ 3 \<le> 2 ^ (52 - S)" by (intro power_increasing) simp_all
  then have P8: "8 \<le> P" by (simp add: P_def)
  from round_half_even_bounds[of 10 "9 * T * P"]
  have b1: "10 * m \<le> 9 * T * P + 5" and b2: "9 * T * P \<le> 10 * m + 5"
    by (simp_all add: m_def)
  from scaled_round_floor[OF P8 b1 b2]
  have "m div P = (9 * T) div 10" and "- ((- m) div P) = - ((- (9 * T)) div 10)"
    by simp_all
  then show ?thesis
    unfolding compute_cutoff_small_exponent[OF assms(1) S S52] m_def P_def by simp
qed

text \<open>
  C4 (as amended). For every total from 1 on with \<open>9 * total < 10 * 2 ^ 50\<close>, that is
  up to 1250999896491804, and both rounding policies, \<open>compute_cutoff\<close> returns the
  ceiling of the exact \<open>9 * total / 10\<close> when rounding up and its floor otherwise.
\<close>

theorem compute_cutoff_exact_below_2_50:
  assumes "1 \<le> T" and "9 * T < 10 * 2 ^ 50"
  shows "compute_cutoff use_ceil T =
     Inr (if use_ceil then \<lceil>9 * real_of_int T / 10\<rceil> else \<lfloor>9 * real_of_int T / 10\<rfloor>)"
proof (cases "T = 1")
  case True
  then show ?thesis
    by (cases use_ceil) (simp_all add: compute_cutoff_floor_1 compute_cutoff_ceil_1)
next
  case False
  with assms(1) have "2 \<le> T" by simp
  from compute_cutoff_exact_from_2[OF this assms(2)] show ?thesis
    by (simp only: floor_9_10 ceiling_9_10)
qed

theorem compute_cutoff_exact_below_2_50_witness:
  "(1::int) \<le> 101 \<and> 9 * 101 < (10::int) * 2 ^ 50 \<and>
   compute_cutoff False 101 = Inr 90 \<and> compute_cutoff True 101 = Inr 91"
proof -
  have h1: "(1::int) \<le> 101" by simp
  have h2: "9 * 101 < (10::int) * 2 ^ 50" by simp
  from compute_cutoff_exact_below_2_50[OF h1 h2, of False]
  have f: "compute_cutoff False 101 = Inr 90" by simp
  from compute_cutoff_exact_below_2_50[OF h1 h2, of True]
  have c: "compute_cutoff True 101 = Inr 91" by simp
  from h1 h2 f c show ?thesis by blast
qed

text \<open>
  Above that bound the float quotient no longer has the bits to tell
  \<open>9 * total / 10\<close> from the next integer: for 1250999896491811 rows the exact quotient
  is 1125899906842629.9, the nearest float is 1125899906842630, and so is its floor.
\<close>

lemma compute_cutoff_floor_big: "compute_cutoff False 1250999896491811 = Inr 1125899906842630"
  by code_simp

theorem compute_cutoff_floor_counterexample:
  "compute_cutoff False 1250999896491811 = Inr 1125899906842630 \<and>
   \<lfloor>9 * real_of_int 1250999896491811 / 10\<rfloor> = 1125899906842629 \<and>
   compute_cutoff False 1250999896491811 \<noteq> Inr \<lfloor>9 * real_of_int 1250999896491811 / 10\<rfloor>"
proof -
  have "\<lfloor>9 * real_of_int 1250999896491811 / 10\<rfloor> = 1125899906842629"
    unfolding floor_9_10 by simp
  then show ?thesis by (simp add: compute_cutoff_floor_big)
qed

lemma compute_cutoff_large_exponent:
  assumes "2 \<le> T" and "floor_log2_quot (9 * T) 10 = int S" and "52 \<le> S"
    and "round_half_even (9 * T) (10 * 2 ^ (S - 52)) * 2 ^ (S - 52) < 2 ^ 1024"
  shows "compute_cutoff use_ceil T =
     Inr (round_half_even (9 * T) (10 * 2 ^ (S - 52)) * 2 ^ (S - 52))"
proof -
  from assms(3) have n: "nat (int S - 52) = S - 52" and pos: "0 \<le> int S - 52"
    by simp_all
  from assms(4) have no: "\<not> 2 ^ 1024 \<le> round_half_even (9 * T) (10 * 2 ^ (S - 52)) * 2 ^ (S - 52)"
    by (simp only: not_le)
  from assms(1) have "\<not> T \<le> 0" by simp
  then show ?thesis
    unfolding compute_cutoff_def int_true_divide_large[OF assms(1,2,3)]
      math_floor_def math_ceil_def
    by (simp only: if_False if_True sum.case prod.case pos n no if_cancel)
qed

lemma cutoff_range_small_exponent:
  fixes m P T :: int
  assumes "2 \<le> T" and "1 \<le> P" and "10 * m \<le> 9 * T * P + 5" and "9 * T * P \<le> 10 * m + 5"
  shows "0 \<le> m div P \<and> m div P \<le> T \<and> 0 \<le> - ((- m) div P) \<and> - ((- m) div P) \<le> T"
proof -
  from assms(1,2) have "2 * 1 \<le> T * P" by (intro mult_mono) simp_all
  then have TP: "2 \<le> T * P" by simp
  have e: "9 * T * P = 9 * (T * P)" by simp
  from assms(3,4) TP have m0: "0 \<le> m" and mT: "m \<le> T * P" unfolding e by linarith+
  from assms(2) have P: "0 < P" by simp
  from m0 P have f0: "0 \<le> m div P" by (simp add: pos_imp_zdiv_nonneg_iff)
  from mT P have "m div P \<le> (T * P) div P" by (intro zdiv_mono1) simp_all
  with P have f1: "m div P \<le> T" by simp
  from m0 P have "(- m) div P \<le> 0 div P" by (intro zdiv_mono1) simp_all
  then have c0: "0 \<le> - ((- m) div P)" by simp
  from mT P have "(- (T * P)) div P \<le> (- m) div P" by (intro zdiv_mono1) simp_all
  moreover from P have "(- (T * P)) div P = - T"
    by (metis less_irrefl minus_mult_left nonzero_mult_div_cancel_right)
  ultimately have c1: "- ((- m) div P) \<le> T" by simp
  from f0 f1 c0 c1 show ?thesis by blast
qed

lemma cutoff_range_large_exponent:
  fixes m X T :: int
  assumes "0 < X" and "10 * 2 ^ 52 * X \<le> 9 * T"
    and "2 * (m * (10 * X)) \<le> 2 * (9 * T) + 10 * X"
    and "2 * (9 * T) \<le> 2 * (m * (10 * X)) + 10 * X"
  shows "0 \<le> m * X \<and> m * X \<le> T \<and> 20 * (m * X) \<le> 18 * T + 10 * X"
proof -
  have e: "m * (10 * X) = 10 * (m * X)" by simp
  from assms show ?thesis unfolding e by simp
qed

lemma below_overflow_bound:
  fixes V T X A B :: int
  assumes "20 * V \<le> 18 * T + 10 * X" and "9 * T < 10 * (A - B)" and "10 * X \<le> 20 * B"
  shows "V < A"
proof -
  from assms(2) have "9 * T < 10 * A - 10 * B" by (simp add: algebra_simps)
  with assms(1,3) show ?thesis by linarith
qed

lemma compute_cutoff_range_from_2:
  assumes "2 \<le> T" and "9 * T < 10 * (2 ^ 1024 - 2 ^ 970)"
  shows "\<exists>c. compute_cutoff use_ceil T = Inr c \<and> 0 \<le> c \<and> c \<le> T"
proof -
  from floor_log2_quot_9_10[OF assms(1)] obtain S where
    S: "floor_log2_quot (9 * T) 10 = int S" and lo: "10 * 2 ^ S \<le> 9 * T"
    by blast
  show ?thesis
  proof (cases "S < 52")
    case True
    define P :: int where "P = 2 ^ (52 - S)"
    define m where "m = round_half_even (9 * T * P) 10"
    have P1: "1 \<le> P" by (simp add: P_def)
    from round_half_even_bounds[of 10 "9 * T * P"]
    have b1: "10 * m \<le> 9 * T * P + 5" and b2: "9 * T * P \<le> 10 * m + 5"
      by (simp_all add: m_def)
    from cutoff_range_small_exponent[OF assms(1) P1 b1 b2]
      compute_cutoff_small_exponent[OF assms(1) S True, of use_ceil]
    show ?thesis unfolding m_def P_def by (cases use_ceil) simp_all
  next
    case False
    then have S52: "52 \<le> S" by simp
    define X :: int where "X = 2 ^ (S - 52)"
    define m where "m = round_half_even (9 * T) (10 * X)"
    have X0: "0 < X" by (simp add: X_def)
    from S52 have "(2::int) ^ S = 2 ^ (52 + (S - 52))" by simp
    then have pS: "(2::int) ^ S = 2 ^ 52 * X" by (simp only: power_add X_def)
    from lo have lo': "10 * 2 ^ 52 * X \<le> 9 * T" by (simp add: pS)
    from X0 have "0 < 10 * X" by simp
    from round_half_even_bounds[OF this, of "9 * T"]
    have b1: "2 * (m * (10 * X)) \<le> 2 * (9 * T) + 10 * X"
      and b2: "2 * (9 * T) \<le> 2 * (m * (10 * X)) + 10 * X"
      by (simp_all add: m_def)
    from cutoff_range_large_exponent[OF X0 lo' b1 b2]
    have v0: "0 \<le> m * X" and vT: "m * X \<le> T" and vb: "20 * (m * X) \<le> 18 * T + 10 * X"
      by simp_all
    from lo assms(2) have "(10::int) * 2 ^ S < 10 * 2 ^ 1024" by simp
    then have "(2::int) ^ S < 2 ^ 1024" by linarith
    then have "S < 1024" by (simp only: power_strict_increasing_iff)
    then have "(2::int) ^ (S - 52) \<le> 2 ^ 971" by (intro power_increasing) simp_all
    then have X971: "X \<le> 2 ^ 971" by (simp only: X_def)
    have "(2::int) ^ 971 = 2 * 2 ^ 970" by simp
    with X971 have "10 * X \<le> 20 * 2 ^ 970" by linarith
    with vb assms(2) have "m * X < 2 ^ 1024" by (rule below_overflow_bound)
    then have "round_half_even (9 * T) (10 * 2 ^ (S - 52)) * 2 ^ (S - 52) < 2 ^ 1024"
      by (simp only: m_def X_def)
    from compute_cutoff_large_exponent[OF assms(1) S S52 this, of use_ceil] v0 vT
    show ?thesis unfolding m_def X_def by simp
  qed
qed

text \<open>
  C5 (as amended). For every non-negative total \<open>T\<close> whose quotient \<open>9 * T / 10\<close>
  rounds to a finite float, that is \<open>9 * T < 10 * (2 ^ 1024 - 2 ^ 970)\<close>, and both
  rounding policies, \<open>compute_cutoff\<close> returns a cutoff between 0 and \<open>T\<close>; the
  cutoff of 0 is 0 for either policy.
\<close>

theorem compute_cutoff_in_range:
  assumes "0 \<le> T" and "9 * T < 10 * (2 ^ 1024 - 2 ^ 970)"
  shows "(\<exists>c. compute_cutoff use_ceil T = Inr c \<and> 0 \<le> c \<and> c \<le> T) \<and>
     compute_cutoff use_ceil 0 = Inr 0"
proof -
  have zero: "compute_cutoff use_ceil 0 = Inr 0" by (simp add: compute_cutoff_nonpos)
  from assms(1) consider "T = 0" | "T = 1" | "2 \<le> T" by linarith
  then have "\<exists>c. compute_cutoff use_ceil T = Inr c \<and> 0 \<le> c \<and> c \<le> T"
  proof cases
    case 1
    with zero show ?thesis by simp
  next
    case 2
    then show ?thesis
      by (cases use_ceil) (simp_all add: compute_cutoff_floor_1 compute_cutoff_ceil_1)
  next
    case 3
    from compute_cutoff_range_from_2[OF this assms(2)] show ?thesis .
  qed
  with zero show ?thesis by blast
qed

theorem compute_cutoff_in_range_witness:
  "(0::int) \<le> 101 \<and> 9 * 101 < (10::int) * (2 ^ 1024 - 2 ^ 970) \<and>
   (\<exists>c. compute_cutoff False 101 = Inr c \<and> 0 \<le> c \<and> c \<le> 101) \<and>
   compute_cutoff False 0 = Inr 0"
proof -
  have h1: "(0::int) \<le> 101" by simp
  have h2: "9 * 101 < (10::int) * (2 ^ 1024 - 2 ^ 970)" by simp
  from compute_cutoff_in_range[OF h1 h2, of False] h1 h2 show ?thesis by blast
qed

text \<open>
  A larger total has no cutoff: the division raises \<^verbatim>\<open>OverflowError\<close>, as for
  \<open>2 ^ 1025\<close> rows.
\<close>

lemma compute_cutoff_overflow: "compute_cutoff False (2 ^ 1025) = Inl OverflowError"
  by code_simp

theorem compute_cutoff_overflow_counterexample:
  "compute_cutoff False (2 ^ 1025) = Inl OverflowError \<and>
   \<not> (\<exists>c. compute_cutoff False (2 ^ 1025) = Inr c \<and> 0 \<le> c \<and> c \<le> 2 ^ 1025)"
proof -
  have e: "compute_cutoff False (2 ^ 1025) = Inl OverflowError"
    by (rule compute_cutoff_overflow)
  have "\<not> (\<exists>c. compute_cutoff False (2 ^ 1025) = Inr c \<and> 0 \<le> c \<and> c \<le> 2 ^ 1025)"
    unfolding e by simp
  with e show ?thesis by blast
qed

section \<open>The partition\<close>

lemma dest_name_distinct: "dest_name d = dest_name d' \<longleftrightarrow> d = d'"
  by (cases d; cases d') (simp_all add: dest_name_def TRAIN_DIR_NAME_def VAL_DIR_NAME_def)



















text \<open>Counting never fails on the files that were listed, and with at least one file
  \<open>find_cutoff_location\<close> returns a location: the run completes or not with the cutoff
  and the transfers.\<close>

lemma count_all_returns:
  "set ps \<subseteq> fst ` set (input_files w) \<Longrightarrow> \<exists>infos. count_all w h ps = Inr infos"
proof (induction ps)
  case Nil
  then show ?case by simp
next
  case (Cons p ps)
  then have "p \<in> fst ` set (input_files w)" by simp
  then obtain rows where "map_of (input_files w) p = Some rows"
    by (meson map_of_eq_None_iff not_None_eq)
  moreover from Cons obtain infos where "count_all w h ps = Inr infos" by auto
  ultimately show ?case by simp
qed

lemma count_all_listed: "\<exists>infos. count_all w h (list_csv_files w) = Inr infos"
  by (rule count_all_returns) (auto simp: list_csv_files_def)

lemma find_cutoff_location_returns:
  "infos \<noteq> [] \<Longrightarrow> \<exists>idx r. find_cutoff_location infos cutoff = Inr (idx, r)"
  by (cases "locate_loop infos cutoff 0 0") (auto simp: find_cutoff_location_def)










text \<open>
  When the input folder is itself the folder \<^verbatim>\<open>training data\<close>, copying raises
  \<^verbatim>\<open>SameFileError\<close> at the first transfer into it, and moving completes with the
  unsplit cutoff file still in that folder.
\<close>

lemma main_copy_in_training:
  "fst (main source_config example_in_training) = Inl SameFileError"
  by code_simp

lemma main_move_in_training:
  "fst (main (source_config\<lparr>MOVE_FILES := True\<rparr>) example_in_training) =
     Inr \<lparr>s_total_lines = 10, s_cutoff = 9, s_cutoff_file = ''b.csv'',
          s_cutoff_line_in_file = 7, s_before_rows = 6, s_after_rows = 2,
          training_sent = [''a.csv'', ''b_before_cutoff.csv''],
          validation_sent = [''b_at_or_after_cutoff.csv'']\<rparr> \<and>
   map fst (input_files (snd (main (source_config\<lparr>MOVE_FILES := True\<rparr>) example_in_training))) =
     [''a.csv'', ''b.csv'', ''b_before_cutoff.csv'']"
  by code_simp

end
